theory Spec2Isabelle
  imports Main "HOL-Library.List_Lexorder" "HOL-Library.Multiset"
begin

section \<open>Data frames\<close>

text \<open>
  The pipeline works on pandas data frames whose columns are looked up by name. A frame
  is modelled row-major: the list of its column labels and the list of its rows, a row
  giving the cell of every label. Every access of the source goes through a label, and a
  label that is not among \<open>columns\<close> raises \<open>KeyError\<close>, so the value of a row at
  a label outside \<open>columns\<close> is never read. The row index of pandas is not stored: the
  frames of this development carry the default index \<open>0, 1, ..., n - 1\<close> (what
  \<open>read_csv\<close> gives and what \<open>reset_index(drop=True)\<close> restores).

  Cells are of one type \<open>'v\<close>, ordered where a frame is sorted.
\<close>

record 'v frame =
  columns :: "string list"
  rows :: "(string \<Rightarrow> 'v) list"

datatype error = KeyError "string list" | IndexError | ValueError

text \<open>\<open>df[c]\<close> for one label and \<open>df[cols].values\<close> for a list of labels.\<close>

definition getcol :: "'v frame \<Rightarrow> string \<Rightarrow> error + 'v list" where
  "getcol df c =
     (if c \<in> set (columns df) then Inr (map (\<lambda>r. r c) (rows df)) else Inl (KeyError [c]))"

definition getcols :: "'v frame \<Rightarrow> string list \<Rightarrow> error + 'v list list" where
  "getcols df cols =
     (case filter (\<lambda>c. c \<notin> set (columns df)) cols of
        [] \<Rightarrow> Inr (map (\<lambda>r. map r cols) (rows df))
      | missing \<Rightarrow> Inl (KeyError missing))"

text \<open>
  \<open>df.sort_values(keys)\<close>: a new frame with the rows ordered by the cells of
  \<open>keys\<close>, compared lexicographically; rows with equal keys keep their order (for more
  than one key pandas sorts with a stable lexsort). A key that is no column raises.
\<close>

definition sort_values :: "string list \<Rightarrow> ('v::linorder) frame \<Rightarrow> error + 'v frame" where
  "sort_values keys df =
     (case filter (\<lambda>c. c \<notin> set (columns df)) keys of
        [] \<Rightarrow> Inr (df\<lparr>rows := sort_key (\<lambda>r. map r keys) (rows df)\<rparr>)
      | c # _ \<Rightarrow> Inl (KeyError [c]))"

text \<open>\<open>df[df[c] == v].reset_index(drop=True)\<close>: the rows whose cell at \<open>c\<close> is \<open>v\<close>.\<close>

definition select_eq :: "string \<Rightarrow> 'v \<Rightarrow> 'v frame \<Rightarrow> error + 'v frame" where
  "select_eq c v df =
     (if c \<in> set (columns df) then Inr (df\<lparr>rows := filter (\<lambda>r. r c = v) (rows df)\<rparr>)
      else Inl (KeyError [c]))"

text \<open>\<open>Series.unique()\<close>: the distinct values in order of first appearance.\<close>

fun unique_from :: "'a list \<Rightarrow> 'a list \<Rightarrow> 'a list" where
  "unique_from seen [] = []"
| "unique_from seen (x # xs) =
     (if x \<in> set seen then unique_from seen xs else x # unique_from (x # seen) xs)"

definition unique :: "'a list \<Rightarrow> 'a list" where
  "unique xs = unique_from [] xs"

section \<open>The sequence builder\<close>

text \<open>
  A \<open>for\<close> loop whose body may raise: the state is threaded through the items and the
  first error ends the loop.
\<close>

fun for_each :: "('s \<Rightarrow> 'a \<Rightarrow> error + 's) \<Rightarrow> 'a list \<Rightarrow> 's \<Rightarrow> error + 's" where
  "for_each body [] s = Inr s"
| "for_each body (x # xs) s =
     (case body s x of Inl e \<Rightarrow> Inl e | Inr s' \<Rightarrow> for_each body xs s')"

text \<open>
  The result of \<open>create_sequences\<close>: the pair \<open>(None, None)\<close>, or the pair of arrays
  built from the lists \<open>sequences\<close> and \<open>targets\<close>.
\<close>

datatype 'v seq_result = NoData | Arrays "'v list list list" "'v list"

type_synonym 'v acc = "'v list list list \<times> 'v list"

text \<open>
  The body of the inner loop:
  \<^verbatim>\<open>sequences.append(data_array[i:i+seq_length]); targets.append(target_array[i+seq_length])\<close>.
  The slice never raises; the index does when it is out of range.
\<close>

definition append_window :: "'v list list \<Rightarrow> 'v list \<Rightarrow> nat \<Rightarrow> 'v acc \<Rightarrow> nat \<Rightarrow> error + 'v acc" where
  "append_window data_array target_array seq_length acc i =
     (if i + seq_length < length target_array
      then Inr (fst acc @ [take seq_length (drop i data_array)],
                snd acc @ [target_array ! (i + seq_length)])
      else Inl IndexError)"

text \<open>The body of the loop over the players.\<close>

definition player_step ::
  "'v frame \<Rightarrow> nat \<Rightarrow> string list \<Rightarrow> string \<Rightarrow> 'v acc \<Rightarrow> 'v \<Rightarrow> error + 'v acc" where
  "player_step df seq_length feature_cols target_col acc player =
     (case select_eq ''player_id'' player df of
        Inl e \<Rightarrow> Inl e
      | Inr player_data \<Rightarrow>
          if length (rows player_data) \<le> seq_length then Inr acc
          else
            (case getcols player_data feature_cols of
               Inl e \<Rightarrow> Inl e
             | Inr data_array \<Rightarrow>
                 (case getcol player_data target_col of
                    Inl e \<Rightarrow> Inl e
                  | Inr target_array \<Rightarrow>
                      for_each (append_window data_array target_array seq_length)
                        [0 ..< length (rows player_data) - seq_length] acc)))"

definition create_sequences ::
  "('v::linorder) frame option \<Rightarrow> nat \<Rightarrow> string list \<Rightarrow> string \<Rightarrow> error + 'v seq_result" where
  "create_sequences df_opt seq_length feature_cols target_col =
     (case df_opt of
        None \<Rightarrow> Inr NoData
      | Some df \<Rightarrow>
          if ''gameweek'' \<notin> set (columns df) then Inr NoData
          else
            (case sort_values [''player_id'', ''gameweek''] df of
               Inl e \<Rightarrow> Inl e
             | Inr sorted_df \<Rightarrow>
                 (case getcol sorted_df ''player_id'' of
                    Inl e \<Rightarrow> Inl e
                  | Inr player_ids \<Rightarrow>
                      (case for_each (player_step sorted_df seq_length feature_cols target_col)
                              (unique player_ids) ([], []) of
                         Inl e \<Rightarrow> Inl e
                       | Inr (sequences, targets) \<Rightarrow> Inr (Arrays sequences targets)))))"

subsection \<open>What the builder computes, per player\<close>

text \<open>
  The rows of the frame in the order the builder walks them, the players in the order
  it visits them, one player's rows, and the windows and targets cut from a group.
\<close>

definition sorted_rows :: "('v::linorder) frame \<Rightarrow> (string \<Rightarrow> 'v) list" where
  "sorted_rows df = sort_key (\<lambda>r. map r [''player_id'', ''gameweek'']) (rows df)"

definition players :: "('v::linorder) frame \<Rightarrow> 'v list" where
  "players df = unique (map (\<lambda>r. r ''player_id'') (sorted_rows df))"

definition player_group :: "('v::linorder) frame \<Rightarrow> 'v \<Rightarrow> (string \<Rightarrow> 'v) list" where
  "player_group df p = filter (\<lambda>r. r ''player_id'' = p) (sorted_rows df)"

definition window_at :: "string list \<Rightarrow> nat \<Rightarrow> (string \<Rightarrow> 'v) list \<Rightarrow> nat \<Rightarrow> 'v list list" where
  "window_at feature_cols seq_length grp i =
     map (\<lambda>r. map r feature_cols) (take seq_length (drop i grp))"

definition windows_of :: "string list \<Rightarrow> nat \<Rightarrow> (string \<Rightarrow> 'v) list \<Rightarrow> 'v list list list" where
  "windows_of feature_cols seq_length grp =
     map (window_at feature_cols seq_length grp) [0 ..< length grp - seq_length]"

definition targets_of :: "string \<Rightarrow> nat \<Rightarrow> (string \<Rightarrow> 'v) list \<Rightarrow> 'v list" where
  "targets_of target_col seq_length grp =
     map (\<lambda>i. (grp ! (i + seq_length)) target_col) [0 ..< length grp - seq_length]"

section \<open>The latest-window extractor\<close>

text \<open>
  \<open>player_data.iloc[-k:]\<close>: the last \<open>k\<close> rows. Python reads \<open>-0\<close> as \<open>0\<close>, so
  for \<open>k = 0\<close> the slice is the whole frame; a \<open>k\<close> beyond the length is clipped.
\<close>

definition iloc_last :: "nat \<Rightarrow> 'a list \<Rightarrow> 'a list" where
  "iloc_last k xs = (if k = 0 then xs else drop (length xs - k) xs)"

text \<open>
  The body of the loop of \<open>predict_next_gameweek\<close>. The trained network is a parameter
  \<open>model\<close>, taking the window (the array of shape \<open>(1, seq_length, num_features)\<close>
  has this one window) to the number \<open>pred[0, 0]\<close>. The dictionary \<open>predictions\<close>
  is a map from players to numbers.
\<close>

definition predict_step ::
  "('v list list \<Rightarrow> 'p) \<Rightarrow> 'v frame \<Rightarrow> nat \<Rightarrow> string list \<Rightarrow> ('v \<rightharpoonup> 'p) \<Rightarrow> 'v
     \<Rightarrow> error + ('v \<rightharpoonup> 'p)" where
  "predict_step model sorted_df seq_length feature_cols predictions player =
     (case select_eq ''player_id'' player sorted_df of
        Inl e \<Rightarrow> Inl e
      | Inr player_data \<Rightarrow>
          if seq_length \<le> length (rows player_data)
          then
            (case getcols (player_data\<lparr>rows := iloc_last seq_length (rows player_data)\<rparr>)
                    feature_cols of
               Inl e \<Rightarrow> Inl e
             | Inr seq \<Rightarrow> Inr (predictions(player \<mapsto> model seq)))
          else Inr predictions)"

definition predict_next_gameweek ::
  "('v list list \<Rightarrow> 'p) \<Rightarrow> ('v::linorder) frame \<Rightarrow> nat \<Rightarrow> string list
     \<Rightarrow> error + ('v \<rightharpoonup> 'p)" where
  "predict_next_gameweek model player_gw_df seq_length feature_cols =
     (case sort_values [''player_id'', ''gameweek''] player_gw_df of
        Inl e \<Rightarrow> Inl e
      | Inr sorted_df \<Rightarrow>
          (case getcol sorted_df ''player_id'' of
             Inl e \<Rightarrow> Inl e
           | Inr player_ids \<Rightarrow>
               for_each (predict_step model sorted_df seq_length feature_cols)
                 (unique player_ids) Map.empty))"

section \<open>Processing: renaming, normalisation, sequence creation\<close>

text \<open>
  \<open>df.rename(columns={old: new})\<close>: a label that is absent is ignored. The callers
  rename only when \<open>new\<close> is no column of the frame, so no label is ever doubled.
\<close>

definition rename_column :: "string \<Rightarrow> string \<Rightarrow> 'v frame \<Rightarrow> 'v frame" where
  "rename_column old new df =
     (if old \<in> set (columns df)
      then \<lparr>columns = map (\<lambda>c. if c = old then new else c) (columns df),
            rows = map (\<lambda>r c. if c = new then r old else r c) (rows df)\<rparr>
      else df)"

text \<open>The three conditional renames of \<open>process_data\<close>.\<close>

definition rename_if_needed :: "string \<Rightarrow> string \<Rightarrow> 'v frame \<Rightarrow> 'v frame" where
  "rename_if_needed old new df =
     (if old \<in> set (columns df) \<and> new \<notin> set (columns df) then rename_column old new df
      else df)"

definition rename_known_columns :: "'v frame \<Rightarrow> 'v frame" where
  "rename_known_columns df =
     rename_if_needed ''goals_scored'' ''goals''
       (rename_if_needed ''mins'' ''minutes''
         (rename_if_needed ''total_points'' ''points'' df))"

text \<open>
  \<open>df[cols] = M\<close> for a matrix \<open>M\<close> with one line per row of the frame and one cell
  per label: the cells of the labels are overwritten in place, every other cell stays.
  A matrix of another shape raises \<open>ValueError\<close>. A label that is no column yet is
  appended (\<open>process_data\<close> assigns existing columns only).
\<close>

definition assign_cells :: "string list \<Rightarrow> 'v list \<Rightarrow> (string \<Rightarrow> 'v) \<Rightarrow> (string \<Rightarrow> 'v)" where
  "assign_cells cols m r = fold (\<lambda>(c, v) r'. r'(c := v)) (zip cols m) r"

definition set_columns :: "string list \<Rightarrow> 'v list list \<Rightarrow> 'v frame \<Rightarrow> error + 'v frame" where
  "set_columns cols M df =
     (if length M = length (rows df) \<and> list_all (\<lambda>m. length m = length cols) M
      then Inr \<lparr>columns = columns df @ filter (\<lambda>c. c \<notin> set (columns df)) (remdups cols),
                rows = map (\<lambda>(r, m). assign_cells cols m r) (zip (rows df) M)\<rparr>
      else Inl ValueError)"

definition required_cols :: "string list" where
  "required_cols = [''player_id'', ''gameweek'', ''minutes'', ''goals'', ''assists'', ''points'']"

definition feature_cols_default :: "string list" where
  "feature_cols_default = [''minutes'', ''goals'', ''assists'']"

text \<open>
  The part of the dictionary returned by \<open>process_data\<close> that the pipeline reads on:
  the aggregated frame and the arrays \<open>X\<close> and \<open>y\<close>, each possibly \<open>None\<close>.
\<close>

record 'v processed =
  player_gw_df :: "'v frame option"
  X :: "'v list list list option"
  y :: "'v list option"

text \<open>
  \<open>process_data\<close> from the point where the per-player files have been read and
  concatenated: \<open>loaded\<close> is that frame, or \<open>None\<close> when there was no file.
  \<open>StandardScaler().fit_transform\<close> is a parameter taking the matrix of the feature
  columns to the rescaled matrix, or raising. The frame is normalised in place, so the
  frame of the result is the normalised one.
\<close>

definition process_data ::
  "('v list list \<Rightarrow> error + 'v list list) \<Rightarrow> ('v::linorder) frame option
     \<Rightarrow> error + 'v processed" where
  "process_data fit_transform loaded =
     (case loaded of
        None \<Rightarrow> Inr \<lparr>player_gw_df = None, X = None, y = None\<rparr>
      | Some df0 \<Rightarrow>
          (let df = rename_known_columns df0 in
           if list_all (\<lambda>col. col \<in> set (columns df)) required_cols
           then
             (case getcols df feature_cols_default of
                Inl e \<Rightarrow> Inl e
              | Inr M \<Rightarrow>
                  (case fit_transform M of
                     Inl e \<Rightarrow> Inl e
                   | Inr M' \<Rightarrow>
                       (case set_columns feature_cols_default M' df of
                          Inl e \<Rightarrow> Inl e
                        | Inr df' \<Rightarrow>
                            (case create_sequences (Some df') 5 feature_cols_default ''points'' of
                               Inl e \<Rightarrow> Inl e
                             | Inr NoData \<Rightarrow> Inr \<lparr>player_gw_df = Some df', X = None, y = None\<rparr>
                             | Inr (Arrays sequences targets) \<Rightarrow>
                                 Inr \<lparr>player_gw_df = Some df', X = Some sequences,
                                      y = Some targets\<rparr>))))
           else Inr \<lparr>player_gw_df = Some df, X = None, y = None\<rparr>))"

text \<open>
  The test with which \<open>main\<close> stops before training:
  \<^verbatim>\<open>if data["X"] is None or data["y"] is None or data["player_gw_df"] is None\<close>.
\<close>

definition main_exits_early :: "'v processed \<Rightarrow> bool" where
  "main_exits_early data = (X data = None \<or> y data = None \<or> player_gw_df data = None)"

section \<open>Ingestion: the player id and the gameweek of a per-player file\<close>

text \<open>\<open>df[c] = v\<close> for a scalar: every row gets the value, a new label is appended.\<close>

definition set_scalar :: "string \<Rightarrow> 'v \<Rightarrow> 'v frame \<Rightarrow> 'v frame" where
  "set_scalar c v df =
     \<lparr>columns = (if c \<in> set (columns df) then columns df else columns df @ [c]),
      rows = map (\<lambda>r. r(c := v)) (rows df)\<rparr>"

text \<open>
  \<open>df.reset_index()\<close> on a frame with the default index: the positions
  \<open>0, ..., n - 1\<close> become a new first column. pandas labels it \<open>index\<close>, unless the
  frame has a column of that name already: then the label is \<open>level_0\<close>, and if that
  exists as well the call raises \<open>ValueError\<close>.
\<close>

definition reset_index :: "('v::semiring_1) frame \<Rightarrow> error + 'v frame" where
  "reset_index df =
     (let name = (if ''index'' \<in> set (columns df) then ''level_0'' else ''index'') in
      if name \<in> set (columns df) then Inl ValueError
      else Inr \<lparr>columns = name # columns df,
                rows = map (\<lambda>(k, r). r(name := of_nat k)) (enumerate 0 (rows df))\<rparr>)"

text \<open>
  \<open>df[c] = df[c] + k\<close>. Cells are unbounded numbers here; the wrap-around of a 64-bit
  integer column is not modelled, and row positions and gameweeks stay far below it.
\<close>

definition add_to_column :: "string \<Rightarrow> 'v \<Rightarrow> ('v::semiring_1) frame \<Rightarrow> error + 'v frame" where
  "add_to_column c k df =
     (if c \<in> set (columns df) then Inr (df\<lparr>rows := map (\<lambda>r. r(c := r c + k)) (rows df)\<rparr>)
      else Inl (KeyError [c]))"

text \<open>
  What the loop of \<open>ingest_data\<close> does to the frame of one downloaded file before saving
  it: the player id is stored in every row, and a gameweek column is added when the file
  has none.
\<close>

definition ingest_player_file :: "'v \<Rightarrow> ('v::semiring_1) frame \<Rightarrow> error + 'v frame" where
  "ingest_player_file player_id df0 =
     (let df = set_scalar ''player_id'' player_id df0 in
      if ''gameweek'' \<notin> set (columns df)
      then
        (case reset_index df of
           Inl e \<Rightarrow> Inl e
         | Inr df1 \<Rightarrow> add_to_column ''gameweek'' 1 (rename_column ''index'' ''gameweek'' df1))
      else Inr df)"

section \<open>Frames as objects\<close>

text \<open>
  A data frame is a mutable object and a variable holds a reference to it. To speak of
  what a call does to the caller's frame, frames live in a store and are passed by
  reference. \<open>sort_values\<close> and the selection by a mask return new frames, which are
  allocated; \<open>df = df.sort_values(...)\<close> only rebinds the local variable. The arrays
  taken from a frame with \<open>.values\<close> are read, never written.
\<close>

record 'v heap =
  frames :: "nat \<Rightarrow> 'v frame"
  next_ref :: nat

definition alloc :: "'v frame \<Rightarrow> 'v heap \<Rightarrow> nat \<times> 'v heap" where
  "alloc f h = (next_ref h, \<lparr>frames = (frames h)(next_ref h := f), next_ref = Suc (next_ref h)\<rparr>)"

definition sort_values_obj ::
  "string list \<Rightarrow> nat \<Rightarrow> ('v::linorder) heap \<Rightarrow> (error + nat) \<times> 'v heap" where
  "sort_values_obj keys a h =
     (case sort_values keys (frames h a) of
        Inl e \<Rightarrow> (Inl e, h)
      | Inr f \<Rightarrow> (case alloc f h of (b, h') \<Rightarrow> (Inr b, h')))"

definition select_eq_obj :: "string \<Rightarrow> 'v \<Rightarrow> nat \<Rightarrow> 'v heap \<Rightarrow> (error + nat) \<times> 'v heap" where
  "select_eq_obj c v a h =
     (case select_eq c v (frames h a) of
        Inl e \<Rightarrow> (Inl e, h)
      | Inr f \<Rightarrow> (case alloc f h of (b, h') \<Rightarrow> (Inr b, h')))"

fun for_each_obj ::
  "('s \<Rightarrow> 'a \<Rightarrow> 'h \<Rightarrow> (error + 's) \<times> 'h) \<Rightarrow> 'a list \<Rightarrow> 's \<Rightarrow> 'h \<Rightarrow> (error + 's) \<times> 'h" where
  "for_each_obj body [] s h = (Inr s, h)"
| "for_each_obj body (x # xs) s h =
     (case body s x h of
        (Inl e, h') \<Rightarrow> (Inl e, h')
      | (Inr s', h') \<Rightarrow> for_each_obj body xs s' h')"

definition player_step_obj ::
  "nat \<Rightarrow> nat \<Rightarrow> string list \<Rightarrow> string \<Rightarrow> 'v acc \<Rightarrow> 'v \<Rightarrow> 'v heap \<Rightarrow> (error + 'v acc) \<times> 'v heap" where
  "player_step_obj df seq_length feature_cols target_col acc player h =
     (case select_eq_obj ''player_id'' player df h of
        (Inl e, h') \<Rightarrow> (Inl e, h')
      | (Inr player_data, h') \<Rightarrow>
          (if length (rows (frames h' player_data)) \<le> seq_length then Inr acc
           else
             (case getcols (frames h' player_data) feature_cols of
                Inl e \<Rightarrow> Inl e
              | Inr data_array \<Rightarrow>
                  (case getcol (frames h' player_data) target_col of
                     Inl e \<Rightarrow> Inl e
                   | Inr target_array \<Rightarrow>
                       for_each (append_window data_array target_array seq_length)
                         [0 ..< length (rows (frames h' player_data)) - seq_length] acc)),
           h'))"

definition create_sequences_obj ::
  "nat option \<Rightarrow> nat \<Rightarrow> string list \<Rightarrow> string \<Rightarrow> ('v::linorder) heap
     \<Rightarrow> (error + 'v seq_result) \<times> 'v heap" where
  "create_sequences_obj df_opt seq_length feature_cols target_col h =
     (case df_opt of
        None \<Rightarrow> (Inr NoData, h)
      | Some df \<Rightarrow>
          if ''gameweek'' \<notin> set (columns (frames h df)) then (Inr NoData, h)
          else
            (case sort_values_obj [''player_id'', ''gameweek''] df h of
               (Inl e, h1) \<Rightarrow> (Inl e, h1)
             | (Inr sorted_df, h1) \<Rightarrow>
                 (case getcol (frames h1 sorted_df) ''player_id'' of
                    Inl e \<Rightarrow> (Inl e, h1)
                  | Inr player_ids \<Rightarrow>
                      (case for_each_obj
                              (player_step_obj sorted_df seq_length feature_cols target_col)
                              (unique player_ids) ([], []) h1 of
                         (Inl e, h2) \<Rightarrow> (Inl e, h2)
                       | (Inr (sequences, targets), h2) \<Rightarrow> (Inr (Arrays sequences targets), h2)))))"

text \<open>A store grows: the frames it had are where they were and as they were.\<close>

definition heap_extends :: "'v heap \<Rightarrow> 'v heap \<Rightarrow> bool" where
  "heap_extends h h' \<longleftrightarrow>
     next_ref h \<le> next_ref h' \<and> (\<forall>b. b < next_ref h \<longrightarrow> frames h' b = frames h b)"

section \<open>Example frames\<close>

text \<open>A row of the six columns the pipeline needs.\<close>

definition gw_row :: "int \<Rightarrow> int \<Rightarrow> int \<Rightarrow> int \<Rightarrow> int \<Rightarrow> int \<Rightarrow> string \<Rightarrow> int" where
  "gw_row pid gw mins gls ast pts =
     (\<lambda>c. if c = ''player_id'' then pid else if c = ''gameweek'' then gw
          else if c = ''minutes'' then mins else if c = ''goals'' then gls
          else if c = ''assists'' then ast else if c = ''points'' then pts else 0)"

text \<open>
  Player 7 with gameweeks 1 to 6, minutes 90, 45, 0, 90, 90, 60 and points
  6, 2, 0, 9, 5, 7, and player 3 with two gameweeks; the rows are not in order.
\<close>

definition season :: "int frame" where
  "season =
     \<lparr>columns = required_cols,
      rows = [gw_row 7 2 45 0 1 2, gw_row 3 2 10 0 0 1, gw_row 7 1 90 1 0 6,
              gw_row 7 4 90 2 0 9, gw_row 7 3 0 0 0 0, gw_row 3 1 80 0 0 2,
              gw_row 7 6 60 0 1 7, gw_row 7 5 90 0 0 5]\<rparr>"

text \<open>A frame in which no player has more than five rows.\<close>

definition short_history :: "int frame" where
  "short_history =
     \<lparr>columns = required_cols,
      rows = [gw_row 7 1 90 1 0 6, gw_row 7 2 45 0 1 2, gw_row 7 3 0 0 0 0]\<rparr>"

text \<open>A downloaded file that has a column \<open>index\<close> and no column \<open>gameweek\<close>.\<close>

definition indexed_file :: "int frame" where
  "indexed_file =
     \<lparr>columns = [''index'', ''minutes''],
      rows = [(\<lambda>c. if c = ''index'' then 10 else if c = ''minutes'' then 90 else 0),
              (\<lambda>c. if c = ''index'' then 20 else if c = ''minutes'' then 45 else 0)]\<rparr>"

text \<open>A file with the minutes only, in two rows.\<close>

definition plain_file :: "int frame" where
  "plain_file =
     \<lparr>columns = [''minutes''],
      rows = [(\<lambda>c. if c = ''minutes'' then 90 else 0), (\<lambda>c. if c = ''minutes'' then 45 else 0)]\<rparr>"

text \<open>A store whose only frame is \<open>season\<close>, at reference 0.\<close>

definition season_heap :: "int heap" where
  "season_heap = \<lparr>frames = (\<lambda>_. season), next_ref = 1\<rparr>"

section \<open>Properties of the frame operations\<close>

lemma for_each_append:
  "for_each body (xs @ ys) s =
     (case for_each body xs s of Inl e \<Rightarrow> Inl e | Inr s' \<Rightarrow> for_each body ys s')"
  by (induction xs arbitrary: s) (auto split: sum.splits)

lemma set_unique_from: "set (unique_from seen xs) = set xs - set seen"
  by (induction seen xs rule: unique_from.induct) auto

lemma distinct_unique_from: "distinct (unique_from seen xs)"
  by (induction seen xs rule: unique_from.induct) (auto simp: set_unique_from)

lemma set_unique [simp]: "set (unique xs) = set xs"
  by (simp add: unique_def set_unique_from)

lemma distinct_unique [simp]: "distinct (unique xs)"
  by (simp add: unique_def distinct_unique_from)

lemma sorted_unique_from: "sorted xs \<Longrightarrow> sorted (unique_from seen xs)"
  by (induction seen xs rule: unique_from.induct) (auto simp: set_unique_from)

lemma sorted_unique: "sorted xs \<Longrightarrow> sorted (unique xs)"
  by (simp add: unique_def sorted_unique_from)

text \<open>The inner loop appends one window and one target per start index, and never raises.\<close>

lemma inner_loop:
  assumes "length data_array = n" and "length target_array = n" and "k + seq_length \<le> n"
  shows "for_each (append_window data_array target_array seq_length) [0 ..< k] acc =
           Inr (fst acc @ map (\<lambda>i. take seq_length (drop i data_array)) [0 ..< k],
                snd acc @ map (\<lambda>i. target_array ! (i + seq_length)) [0 ..< k])"
  using assms
proof (induction k arbitrary: acc)
  case 0
  then show ?case by simp
next
  case (Suc k)
  then show ?case
    by (simp add: for_each_append append_window_def)
qed

section \<open>The builder, player by player\<close>

lemma getcols_present:
  "set cols \<subseteq> set (columns df) \<Longrightarrow> getcols df cols = Inr (map (\<lambda>r. map r cols) (rows df))"
proof -
  assume "set cols \<subseteq> set (columns df)"
  then have "filter (\<lambda>c. c \<notin> set (columns df)) cols = []"
    by (auto simp: filter_empty_conv)
  then show ?thesis by (simp add: getcols_def)
qed

lemma sort_values_present:
  "set keys \<subseteq> set (columns df) \<Longrightarrow>
     sort_values keys df = Inr (df\<lparr>rows := sort_key (\<lambda>r. map r keys) (rows df)\<rparr>)"
proof -
  assume "set keys \<subseteq> set (columns df)"
  then have "filter (\<lambda>c. c \<notin> set (columns df)) keys = []"
    by (auto simp: filter_empty_conv)
  then show ?thesis by (simp add: sort_values_def)
qed

lemma window_at_map:
  "take seq_length (drop i (map (\<lambda>r. map r feature_cols) grp)) =
     window_at feature_cols seq_length grp i"
  by (simp add: window_at_def take_map drop_map)

lemma player_step_present:
  assumes "''player_id'' \<in> set (columns df)" and "set feature_cols \<subseteq> set (columns df)"
    and "target_col \<in> set (columns df)"
  shows "player_step df seq_length feature_cols target_col acc p =
           Inr (fst acc @ windows_of feature_cols seq_length (filter (\<lambda>r. r ''player_id'' = p) (rows df)),
                snd acc @ targets_of target_col seq_length (filter (\<lambda>r. r ''player_id'' = p) (rows df)))"
proof -
  let ?g = "filter (\<lambda>r. r ''player_id'' = p) (rows df)"
  let ?pd = "df\<lparr>rows := ?g\<rparr>"
  have sel: "select_eq ''player_id'' p df = Inr ?pd"
    using assms(1) by (simp add: select_eq_def)
  show ?thesis
  proof (cases "length ?g \<le> seq_length")
    case True
    then show ?thesis
      by (simp add: player_step_def sel windows_of_def targets_of_def)
  next
    case False
    have da: "getcols ?pd feature_cols = Inr (map (\<lambda>r. map r feature_cols) ?g)"
      using assms(2) by (simp add: getcols_present)
    have ta: "getcol ?pd target_col = Inr (map (\<lambda>r. r target_col) ?g)"
      using assms(3) by (simp add: getcol_def)
    have loop: "for_each (append_window (map (\<lambda>r. map r feature_cols) ?g)
                   (map (\<lambda>r. r target_col) ?g) seq_length) [0 ..< length ?g - seq_length] acc =
                Inr (fst acc @ map (\<lambda>i. take seq_length (drop i (map (\<lambda>r. map r feature_cols) ?g)))
                                 [0 ..< length ?g - seq_length],
                     snd acc @ map (\<lambda>i. map (\<lambda>r. r target_col) ?g ! (i + seq_length))
                                 [0 ..< length ?g - seq_length])"
      using False by (intro inner_loop[where n = "length ?g"]) simp_all
    have tg: "map (\<lambda>i. map (\<lambda>r. r target_col) ?g ! (i + seq_length)) [0 ..< length ?g - seq_length] =
              targets_of target_col seq_length ?g"
      unfolding targets_of_def by (rule map_cong) auto
    have wn: "map (\<lambda>i. take seq_length (drop i (map (\<lambda>r. map r feature_cols) ?g)))
                [0 ..< length ?g - seq_length] = windows_of feature_cols seq_length ?g"
      unfolding windows_of_def by (simp add: window_at_map)
    show ?thesis
      using False by (simp add: player_step_def sel da ta loop tg wn)
  qed
qed

lemma players_loop:
  assumes "''player_id'' \<in> set (columns df)" and "set feature_cols \<subseteq> set (columns df)"
    and "target_col \<in> set (columns df)"
  shows "for_each (player_step df seq_length feature_cols target_col) ps acc =
           Inr (fst acc @ concat (map (\<lambda>p. windows_of feature_cols seq_length
                                       (filter (\<lambda>r. r ''player_id'' = p) (rows df))) ps),
                snd acc @ concat (map (\<lambda>p. targets_of target_col seq_length
                                       (filter (\<lambda>r. r ''player_id'' = p) (rows df))) ps))"
proof (induction ps arbitrary: acc)
  case Nil
  then show ?case by simp
next
  case (Cons p ps)
  let ?body = "player_step df seq_length feature_cols target_col"
  obtain acc' where step: "?body acc p = Inr acc'"
    and acc': "acc' = (fst acc @ windows_of feature_cols seq_length
                                   (filter (\<lambda>r. r ''player_id'' = p) (rows df)),
                       snd acc @ targets_of target_col seq_length
                                   (filter (\<lambda>r. r ''player_id'' = p) (rows df)))"
    using player_step_present[OF assms] by blast
  have "for_each ?body (p # ps) acc = for_each ?body ps acc'"
    by (simp only: for_each.simps step sum.case)
  also have "\<dots> = Inr (fst acc' @ concat (map (\<lambda>p. windows_of feature_cols seq_length
                                       (filter (\<lambda>r. r ''player_id'' = p) (rows df))) ps),
                snd acc' @ concat (map (\<lambda>p. targets_of target_col seq_length
                                       (filter (\<lambda>r. r ''player_id'' = p) (rows df))) ps))"
    by (rule Cons.IH)
  finally show ?case
    by (simp add: acc')
qed

lemma create_sequences_blocks:
  assumes "''player_id'' \<in> set (columns df)" and "''gameweek'' \<in> set (columns df)"
    and "set feature_cols \<subseteq> set (columns df)" and "target_col \<in> set (columns df)"
  shows "create_sequences (Some df) seq_length feature_cols target_col =
           Inr (Arrays
                 (concat (map (\<lambda>p. windows_of feature_cols seq_length (player_group df p)) (players df)))
                 (concat (map (\<lambda>p. targets_of target_col seq_length (player_group df p)) (players df))))"
proof -
  let ?sdf = "df\<lparr>rows := sorted_rows df\<rparr>"
  have sv: "sort_values [''player_id'', ''gameweek''] df = Inr ?sdf"
    using assms(1,2) by (simp add: sort_values_present sorted_rows_def)
  have ids: "getcol ?sdf ''player_id'' = Inr (map (\<lambda>r. r ''player_id'') (sorted_rows df))"
    using assms(1) by (simp add: getcol_def)
  have loop: "for_each (player_step ?sdf seq_length feature_cols target_col) (players df) ([], []) =
      Inr (concat (map (\<lambda>p. windows_of feature_cols seq_length (player_group df p)) (players df)),
           concat (map (\<lambda>p. targets_of target_col seq_length (player_group df p)) (players df)))"
    using assms by (simp add: players_loop player_group_def)
  show ?thesis
    using assms(2) by (simp add: create_sequences_def sv ids loop players_def[symmetric])
qed

lemma length_windows_of: "length (windows_of fc L g) = length g - L"
  by (simp add: windows_of_def)

lemma length_targets_of: "length (targets_of tc L g) = length g - L"
  by (simp add: targets_of_def)

lemma player_group_sort:
  "player_group df p = sort_key (\<lambda>r. map r [''player_id'', ''gameweek''])
                         (filter (\<lambda>r. r ''player_id'' = p) (rows df))"
  by (simp add: player_group_def sorted_rows_def filter_sort)

lemma length_player_group:
  "length (player_group df p) = length (filter (\<lambda>r. r ''player_id'' = p) (rows df))"
  by (simp add: player_group_sort)

lemma mset_player_group:
  "mset (player_group df p) = mset (filter (\<lambda>r. r ''player_id'' = p) (rows df))"
  by (simp add: player_group_sort)

lemma set_player_group:
  "set (player_group df p) = {r \<in> set (rows df). r ''player_id'' = p}"
  by (auto simp: player_group_def sorted_rows_def)

lemma sorted_player_group:
  "sorted (map (\<lambda>r. r ''gameweek'') (player_group df p))"
proof -
  let ?k = "\<lambda>r::string \<Rightarrow> 'a. map r [''player_id'', ''gameweek'']"
  have "sorted (map ?k (sorted_rows df))"
    by (simp only: sorted_rows_def sorted_sort_key)
  then have "sorted (map ?k (player_group df p))"
    unfolding player_group_def by (rule sorted_filter)
  then have "sorted_wrt (\<lambda>a b. ?k a \<le> ?k b) (player_group df p)"
    by (simp only: sorted_map)
  then have "sorted_wrt (\<lambda>a b. a ''gameweek'' \<le> b ''gameweek'') (player_group df p)"
  proof (rule sorted_wrt_mono_rel[rotated])
    fix a b
    assume "a \<in> set (player_group df p)" "b \<in> set (player_group df p)" "?k a \<le> ?k b"
    then show "a ''gameweek'' \<le> b ''gameweek''"
      by (auto simp: set_player_group)
  qed
  then show ?thesis by (simp only: sorted_map)
qed

lemma set_players: "set (players df) = (\<lambda>r. r ''player_id'') ` set (rows df)"
  by (simp add: players_def sorted_rows_def)

lemma distinct_players: "distinct (players df)"
  by (simp add: players_def)

lemma sorted_players: "sorted (players df)"
proof -
  let ?k = "\<lambda>r::string \<Rightarrow> 'a. map r [''player_id'', ''gameweek'']"
  have "sorted (map ?k (sorted_rows df))"
    by (simp only: sorted_rows_def sorted_sort_key)
  then have "sorted_wrt (\<lambda>a b. ?k a \<le> ?k b) (sorted_rows df)"
    by (simp only: sorted_map)
  then have "sorted_wrt (\<lambda>a b. a ''player_id'' \<le> b ''player_id'') (sorted_rows df)"
    by (rule sorted_wrt_mono_rel[rotated]) (auto split: if_splits)
  then have "sorted (map (\<lambda>r. r ''player_id'') (sorted_rows df))"
    by (simp only: sorted_map)
  then show ?thesis
    unfolding players_def by (rule sorted_unique)
qed

lemma players_ascending:
  "players df = sorted_list_of_set ((\<lambda>r. r ''player_id'') ` set (rows df))"
  by (metis distinct_players sorted_players set_players sorted_list_of_set.idem_if_sorted_distinct)

text \<open>Evaluations on the example frame \<open>season\<close>.\<close>

lemma gw_row_simps:
  "gw_row pid gw mins gls ast pts ''player_id'' = pid"
  "gw_row pid gw mins gls ast pts ''gameweek'' = gw"
  "gw_row pid gw mins gls ast pts ''minutes'' = mins"
  "gw_row pid gw mins gls ast pts ''goals'' = gls"
  "gw_row pid gw mins gls ast pts ''assists'' = ast"
  "gw_row pid gw mins gls ast pts ''points'' = pts"
  by (simp_all add: gw_row_def)

lemma sorted_rows_season:
  "sorted_rows season =
     [gw_row 3 1 80 0 0 2, gw_row 3 2 10 0 0 1, gw_row 7 1 90 1 0 6, gw_row 7 2 45 0 1 2,
      gw_row 7 3 0 0 0 0, gw_row 7 4 90 2 0 9, gw_row 7 5 90 0 0 5, gw_row 7 6 60 0 1 7]"
  by (simp add: sorted_rows_def season_def gw_row_simps)

lemma players_season: "players season = [3, 7]"
  by (simp add: players_def sorted_rows_season gw_row_simps unique_def)

lemma player_group_season_7:
  "player_group season 7 =
     [gw_row 7 1 90 1 0 6, gw_row 7 2 45 0 1 2, gw_row 7 3 0 0 0 0, gw_row 7 4 90 2 0 9,
      gw_row 7 5 90 0 0 5, gw_row 7 6 60 0 1 7]"
  by (simp add: player_group_def sorted_rows_season gw_row_simps)

lemma player_group_season_3:
  "player_group season 3 = [gw_row 3 1 80 0 0 2, gw_row 3 2 10 0 0 1]"
  by (simp add: player_group_def sorted_rows_season gw_row_simps)

lemma season_run_5:
  "create_sequences (Some season) 5 [''minutes''] ''points'' =
     Inr (Arrays [[[90], [45], [0], [90], [90]]] [7])"
  by code_simp

text \<open>The number of windows in the output, summed over the players of the frame.\<close>

lemma total_window_count:
  "int (length (concat (map (\<lambda>p. windows_of fc L (player_group df p)) (players df)))) =
     (\<Sum>q \<in> (\<lambda>r. r ''player_id'') ` set (rows df).
        max 0 (int (length (filter (\<lambda>r. r ''player_id'' = q) (rows df))) - int L))"
proof -
  let ?n = "\<lambda>q. length (filter (\<lambda>r. r ''player_id'' = q) (rows df))"
  have "length (concat (map (\<lambda>p. windows_of fc L (player_group df p)) (players df))) =
          sum_list (map (\<lambda>q. ?n q - L) (players df))"
    by (simp add: length_concat comp_def length_windows_of length_player_group)
  also have "\<dots> = (\<Sum>q \<in> set (players df). ?n q - L)"
    using distinct_players[of df] by (rule sum_list_distinct_conv_sum_set)
  finally have "int (length (concat (map (\<lambda>p. windows_of fc L (player_group df p)) (players df)))) =
      (\<Sum>q \<in> set (players df). int (?n q - L))"
    by simp
  also have "\<dots> = (\<Sum>q \<in> set (players df). max 0 (int (?n q) - int L))"
    by (rule sum.cong) auto
  finally show ?thesis
    by (simp only: set_players)
qed

text \<open>
  Claim C1. On a frame with the columns the builder reads, \<open>create_sequences\<close> returns
  the two arrays: it neither raises nor returns \<open>(None, None)\<close>. The sequences and the
  targets are the concatenation, over the players in the order of the loop, of each
  player's windows and targets. The loop visits every player id of the frame exactly
  once, and a player with \<open>n\<close> rows in the frame has \<open>max(0, n - seq_length)\<close>
  windows and as many targets, so the output has the sum of these numbers over the
  player ids of the frame. A player with at most \<open>seq_length\<close> rows is skipped and
  the call goes on. This holds for every window length, so for every length from 1 on.
\<close>

theorem window_count_per_player:
  assumes "''player_id'' \<in> set (columns df)" and "''gameweek'' \<in> set (columns df)"
    and "set feature_cols \<subseteq> set (columns df)" and "target_col \<in> set (columns df)"
  shows "create_sequences (Some df) seq_length feature_cols target_col =
           Inr (Arrays
                 (concat (map (\<lambda>p. windows_of feature_cols seq_length (player_group df p)) (players df)))
                 (concat (map (\<lambda>p. targets_of target_col seq_length (player_group df p)) (players df))))
         \<and> distinct (players df)
         \<and> set (players df) = (\<lambda>r. r ''player_id'') ` set (rows df)
         \<and> int (length (windows_of feature_cols seq_length (player_group df p))) =
             max 0 (int (length (filter (\<lambda>r. r ''player_id'' = p) (rows df))) - int seq_length)
         \<and> length (targets_of target_col seq_length (player_group df p)) =
             length (windows_of feature_cols seq_length (player_group df p))
         \<and> int (length (concat (map (\<lambda>p. windows_of feature_cols seq_length (player_group df p))
                                     (players df)))) =
             (\<Sum>q \<in> (\<lambda>r. r ''player_id'') ` set (rows df).
                max 0 (int (length (filter (\<lambda>r. r ''player_id'' = q) (rows df))) - int seq_length))"
  using create_sequences_blocks[OF assms, of seq_length] distinct_players[of df] set_players[of df]
    total_window_count[of feature_cols seq_length df]
  by (simp add: length_windows_of length_targets_of length_player_group)

text \<open>
  In \<open>season\<close>, with windows of five rows, the builder returns one window: player 7
  has six rows and gives it, player 3 has two rows and gives none.
\<close>

theorem window_count_per_player_witness:
  "''player_id'' \<in> set (columns season) \<and> ''gameweek'' \<in> set (columns season)
   \<and> set [''minutes''] \<subseteq> set (columns season) \<and> ''points'' \<in> set (columns season)
   \<and> create_sequences (Some season) 5 [''minutes''] ''points'' =
        Inr (Arrays [[[90], [45], [0], [90], [90]]] [7])
   \<and> players season = [3, 7]
   \<and> length (filter (\<lambda>r. r ''player_id'' = 7) (rows season)) = 6
   \<and> windows_of [''minutes''] 5 (player_group season 7) = [[[90], [45], [0], [90], [90]]]
   \<and> int (length (windows_of [''minutes''] 5 (player_group season 7))) = 1
   \<and> length (filter (\<lambda>r. r ''player_id'' = 3) (rows season)) = 2
   \<and> windows_of [''minutes''] 5 (player_group season 3) = []
   \<and> int (length (windows_of [''minutes''] 5 (player_group season 3))) = 0
   \<and> (\<Sum>q \<in> (\<lambda>r. r ''player_id'') ` set (rows season).
         max 0 (int (length (filter (\<lambda>r. r ''player_id'' = q) (rows season))) - int 5)) = 1"
proof -
  have c: "''player_id'' \<in> set (columns season)" "''gameweek'' \<in> set (columns season)"
    "set [''minutes''] \<subseteq> set (columns season)" "''points'' \<in> set (columns season)"
    by (simp_all add: season_def required_cols_def)
  have n7: "length (filter (\<lambda>r. r ''player_id'' = 7) (rows season)) = 6"
    and n3: "length (filter (\<lambda>r. r ''player_id'' = 3) (rows season)) = 2"
    by (simp_all add: season_def gw_row_simps)
  note t7 = window_count_per_player[OF c, of 5 7]
  note t3 = window_count_per_player[OF c, of 5 3]
  from t7 have blocks: "concat (map (\<lambda>p. windows_of [''minutes''] 5 (player_group season p))
                                (players season)) = [[[90], [45], [0], [90], [90]]]"
    by (simp add: season_run_5)
  from t7 n7 have l7: "int (length (windows_of [''minutes''] 5 (player_group season 7))) = 1"
    by simp
  from t3 n3 have l3: "int (length (windows_of [''minutes''] 5 (player_group season 3))) = 0"
    by simp
  from l3 have w3: "windows_of [''minutes''] 5 (player_group season 3) = []"
    by simp
  from blocks w3 have w7: "windows_of [''minutes''] 5 (player_group season 7) =
                             [[[90], [45], [0], [90], [90]]]"
    by (simp add: players_season)
  from t7 blocks have total: "(\<Sum>q \<in> (\<lambda>r. r ''player_id'') ` set (rows season).
         max 0 (int (length (filter (\<lambda>r. r ''player_id'' = q) (rows season))) - int 5)) = 1"
    by simp
  show ?thesis
    using c season_run_5 players_season n7 n3 l7 l3 w3 w7 total by blast
qed

lemma zip_concat_map:
  "(\<And>x. x \<in> set xs \<Longrightarrow> length (f x) = length (g x)) \<Longrightarrow>
     zip (concat (map f xs)) (concat (map g xs)) = concat (map (\<lambda>x. zip (f x) (g x)) xs)"
  by (induction xs) simp_all

lemma zip_windows_targets:
  "zip (windows_of fc L g) (targets_of tc L g) =
     map (\<lambda>i. (window_at fc L g i, (g ! (i + L)) tc)) [0 ..< length g - L]"
  by (simp add: windows_of_def targets_of_def zip_map_map zip_same_conv_map)

text \<open>
  Claim C2. The windows and the targets are emitted in pairs: for every player, in the
  order of the loop, and every start index \<open>i\<close> below \<open>n - seq_length\<close>, the pair of
  the feature cells of the rows \<open>i, ..., i + seq_length - 1\<close> of the player's group and
  the target cell of the row at \<open>i + seq_length\<close>, the row that follows the window.
  The group of a player holds exactly the player's rows of the frame, in ascending
  order of the gameweek.
\<close>

theorem target_is_next_row:
  assumes "''player_id'' \<in> set (columns df)" and "''gameweek'' \<in> set (columns df)"
    and "set feature_cols \<subseteq> set (columns df)" and "target_col \<in> set (columns df)"
  shows "\<exists>sequences targets.
           create_sequences (Some df) seq_length feature_cols target_col =
             Inr (Arrays sequences targets)
         \<and> length sequences = length targets
         \<and> zip sequences targets =
             concat (map (\<lambda>p. map (\<lambda>i. (window_at feature_cols seq_length (player_group df p) i,
                                           (player_group df p ! (i + seq_length)) target_col))
                                  [0 ..< length (player_group df p) - seq_length])
                         (players df))
         \<and> sorted (map (\<lambda>r. r ''gameweek'') (player_group df p))
         \<and> mset (player_group df p) = mset (filter (\<lambda>r. r ''player_id'' = p) (rows df))"
proof -
  let ?S = "concat (map (\<lambda>p. windows_of feature_cols seq_length (player_group df p)) (players df))"
  let ?T = "concat (map (\<lambda>p. targets_of target_col seq_length (player_group df p)) (players df))"
  have run: "create_sequences (Some df) seq_length feature_cols target_col = Inr (Arrays ?S ?T)"
    by (rule create_sequences_blocks[OF assms])
  have len: "length ?S = length ?T"
    by (simp add: length_concat comp_def length_windows_of length_targets_of)
  have "zip ?S ?T =
          concat (map (\<lambda>p. zip (windows_of feature_cols seq_length (player_group df p))
                               (targets_of target_col seq_length (player_group df p))) (players df))"
    by (rule zip_concat_map) (simp add: length_windows_of length_targets_of)
  then have pairs: "zip ?S ?T =
      concat (map (\<lambda>p. map (\<lambda>i. (window_at feature_cols seq_length (player_group df p) i,
                                    (player_group df p ! (i + seq_length)) target_col))
                           [0 ..< length (player_group df p) - seq_length]) (players df))"
    by (simp only: zip_windows_targets)
  show ?thesis
    using run len pairs sorted_player_group[of df p] mset_player_group[of df p] by blast
qed

text \<open>
  In \<open>season\<close> the one window of player 7 is paired with 7, the points of the sixth
  row of the player's group.
\<close>

theorem target_is_next_row_witness:
  "''player_id'' \<in> set (columns season) \<and> ''gameweek'' \<in> set (columns season)
   \<and> set [''minutes''] \<subseteq> set (columns season) \<and> ''points'' \<in> set (columns season)
   \<and> create_sequences (Some season) 5 [''minutes''] ''points'' =
        Inr (Arrays [[[90], [45], [0], [90], [90]]] [7])
   \<and> concat (map (\<lambda>p. map (\<lambda>i. (window_at [''minutes''] 5 (player_group season p) i,
                                   (player_group season p ! (i + 5)) ''points''))
                          [0 ..< length (player_group season p) - 5])
                 (players season)) = [([[90], [45], [0], [90], [90]], 7)]
   \<and> (player_group season 7 ! (0 + 5)) ''points'' = 7
   \<and> sorted (map (\<lambda>r. r ''gameweek'') (player_group season 7))"
proof -
  have c: "''player_id'' \<in> set (columns season)" "''gameweek'' \<in> set (columns season)"
    "set [''minutes''] \<subseteq> set (columns season)" "''points'' \<in> set (columns season)"
    by (simp_all add: season_def required_cols_def)
  obtain S T where run: "create_sequences (Some season) 5 [''minutes''] ''points'' = Inr (Arrays S T)"
    and pairs: "zip S T =
       concat (map (\<lambda>p. map (\<lambda>i. (window_at [''minutes''] 5 (player_group season p) i,
                                   (player_group season p ! (i + 5)) ''points''))
                          [0 ..< length (player_group season p) - 5])
                 (players season))"
    and srt: "sorted (map (\<lambda>r. r ''gameweek'') (player_group season 7))"
    using target_is_next_row[OF c, of 5 7] by blast
  from run have "S = [[[90], [45], [0], [90], [90]]]" and "T = [7]"
    by (simp_all add: season_run_5)
  with pairs have "concat (map (\<lambda>p. map (\<lambda>i. (window_at [''minutes''] 5 (player_group season p) i,
                                   (player_group season p ! (i + 5)) ''points''))
                          [0 ..< length (player_group season p) - 5])
                 (players season)) = [([[90], [45], [0], [90], [90]], 7)]"
    by simp
  moreover have "(player_group season 7 ! (0 + 5)) ''points'' = 7"
    by (simp add: player_group_season_7 gw_row_simps)
  ultimately show ?thesis
    using c srt season_run_5 by simp
qed

lemma for_each_invariant:
  assumes "\<And>s x s'. P s \<Longrightarrow> body s x = Inr s' \<Longrightarrow> P s'"
    and "P s" and "for_each body xs s = Inr s'"
  shows "P s'"
  using assms(2,3)
proof (induction xs arbitrary: s)
  case Nil
  then show ?case by simp
next
  case (Cons x xs)
  from Cons.prems(2) obtain s1 where s1: "body s x = Inr s1" and rest: "for_each body xs s1 = Inr s'"
    by (auto split: sum.splits)
  from assms(1)[OF Cons.prems(1) s1] have "P s1" .
  then show ?case using rest by (rule Cons.IH)
qed

lemma append_window_shape:
  assumes "\<forall>w \<in> set (fst acc). length w = L \<and> (\<forall>t \<in> set w. length t = k)"
    and "\<forall>t \<in> set data_array. length t = k"
    and "length data_array = length target_array"
    and "append_window data_array target_array L acc i = Inr acc'"
  shows "\<forall>w \<in> set (fst acc'). length w = L \<and> (\<forall>t \<in> set w. length t = k)"
proof -
  from assms(4) have i: "i + L < length target_array"
    and acc': "fst acc' = fst acc @ [take L (drop i data_array)]"
    by (auto simp: append_window_def split: if_splits)
  have "length (take L (drop i data_array)) = L"
    using i assms(3) by simp
  moreover have "\<forall>t \<in> set (take L (drop i data_array)). length t = k"
    using assms(2) by (meson in_set_dropD in_set_takeD)
  ultimately show ?thesis
    using assms(1) by (auto simp: acc')
qed

lemma player_step_shape:
  assumes "\<forall>w \<in> set (fst acc). length w = L \<and> (\<forall>t \<in> set w. length t = length fc)"
    and "player_step df L fc tc acc p = Inr acc'"
  shows "\<forall>w \<in> set (fst acc'). length w = L \<and> (\<forall>t \<in> set w. length t = length fc)"
proof -
  from assms(2) obtain pd where sel: "select_eq ''player_id'' p df = Inr pd"
    by (auto simp: player_step_def split: sum.splits)
  show ?thesis
  proof (cases "length (rows pd) \<le> L")
    case True
    with assms sel show ?thesis by (simp add: player_step_def)
  next
    case False
    with assms(2) sel obtain da ta where da: "getcols pd fc = Inr da" and ta: "getcol pd tc = Inr ta"
      and loop: "for_each (append_window da ta L) [0 ..< length (rows pd) - L] acc = Inr acc'"
      by (auto simp: player_step_def split: sum.splits)
    from da have da_eq: "da = map (\<lambda>r. map r fc) (rows pd)"
      by (auto simp: getcols_def split: list.splits)
    from ta have ta_eq: "ta = map (\<lambda>r. r tc) (rows pd)"
      by (auto simp: getcol_def split: if_splits)
    have cells: "\<forall>t \<in> set da. length t = length fc" and len: "length da = length ta"
      by (auto simp: da_eq ta_eq)
    show ?thesis
      using _ assms(1) loop
    proof (rule for_each_invariant[where P = "\<lambda>a. \<forall>w \<in> set (fst a). length w = L \<and> (\<forall>t \<in> set w. length t = length fc)"])
      fix s x s'
      assume "\<forall>w \<in> set (fst s). length w = L \<and> (\<forall>t \<in> set w. length t = length fc)"
        and "append_window da ta L s x = Inr s'"
      then show "\<forall>w \<in> set (fst s'). length w = L \<and> (\<forall>t \<in> set w. length t = length fc)"
        by (rule append_window_shape[OF _ cells len])
    qed
  qed
qed

text \<open>
  Claim C5. Whenever \<open>create_sequences\<close> returns arrays, every sequence has exactly
  \<open>seq_length\<close> feature tuples and every tuple has one cell per requested feature
  column. The proof is an invariant of the two loops and asks nothing of the frame.
\<close>

theorem window_shape:
  assumes "create_sequences df_opt seq_length feature_cols target_col = Inr (Arrays sequences targets)"
  shows "\<forall>w \<in> set sequences. length w = seq_length \<and> (\<forall>t \<in> set w. length t = length feature_cols)"
proof -
  from assms obtain df sdf ids where
    loop: "for_each (player_step sdf seq_length feature_cols target_col) (unique ids) ([], []) =
             Inr (sequences, targets)"
    by (auto simp: create_sequences_def split: option.splits if_splits sum.splits prod.splits)
  have "\<forall>w \<in> set (fst (sequences, targets)). length w = seq_length \<and> (\<forall>t \<in> set w. length t = length feature_cols)"
    using _ _ loop
  proof (rule for_each_invariant[where P = "\<lambda>a. \<forall>w \<in> set (fst a). length w = seq_length \<and> (\<forall>t \<in> set w. length t = length feature_cols)"])
    fix s x s'
    assume "\<forall>w \<in> set (fst s). length w = seq_length \<and> (\<forall>t \<in> set w. length t = length feature_cols)"
      and "player_step sdf seq_length feature_cols target_col s x = Inr s'"
    then show "\<forall>w \<in> set (fst s'). length w = seq_length \<and> (\<forall>t \<in> set w. length t = length feature_cols)"
      by (rule player_step_shape)
  qed simp
  then show ?thesis by simp
qed

text \<open>
  With two feature columns the one window of \<open>season\<close> has five tuples of two cells.
\<close>

theorem window_shape_witness:
  "create_sequences (Some season) 5 [''minutes'', ''goals''] ''points'' =
     Inr (Arrays [[[90, 1], [45, 0], [0, 0], [90, 2], [90, 0]]] [7])
   \<and> list_all (\<lambda>w. length w = 5 \<and> list_all (\<lambda>t. length t = length [''minutes'', ''goals'']) w)
        [[[90, 1], [45, 0], [0, 0], [90, 2], [90, 0::int]]]"
proof -
  have run: "create_sequences (Some season) 5 [''minutes'', ''goals''] ''points'' =
     Inr (Arrays [[[90, 1], [45, 0], [0, 0], [90, 2], [90, 0]]] [7])"
    by code_simp
  from window_shape[OF run]
  have "list_all (\<lambda>w. length w = 5 \<and> list_all (\<lambda>t. length t = length [''minutes'', ''goals'']) w)
          [[[90, 1], [45, 0], [0, 0], [90, 2], [90, 0::int]]]"
    unfolding list_all_iff by blast
  with run show ?thesis by blast
qed

text \<open>
  Claim C8. The sequences are the concatenation of one block per player. The players
  are visited in ascending order of the player id, each once, so the windows of a player
  are contiguous and no two players interleave; inside a block the windows stand in
  increasing order of their start index.
\<close>

theorem windows_grouped_by_player:
  assumes "''player_id'' \<in> set (columns df)" and "''gameweek'' \<in> set (columns df)"
    and "set feature_cols \<subseteq> set (columns df)" and "target_col \<in> set (columns df)"
  shows "\<exists>targets.
           create_sequences (Some df) seq_length feature_cols target_col =
             Inr (Arrays
                   (concat (map (\<lambda>p. map (window_at feature_cols seq_length (player_group df p))
                                         [0 ..< length (player_group df p) - seq_length])
                                (players df)))
                   targets)
         \<and> distinct (players df)
         \<and> players df = sorted_list_of_set ((\<lambda>r. r ''player_id'') ` set (rows df))"
  using create_sequences_blocks[OF assms, of seq_length] distinct_players[of df] players_ascending[of df]
  by (simp add: windows_of_def)

text \<open>
  With windows of one row, \<open>season\<close> gives the one window of player 3 and then the
  five windows of player 7.
\<close>

theorem windows_grouped_by_player_witness:
  "''player_id'' \<in> set (columns season) \<and> ''gameweek'' \<in> set (columns season)
   \<and> set [''minutes''] \<subseteq> set (columns season) \<and> ''points'' \<in> set (columns season)
   \<and> players season = [3, 7]
   \<and> map (window_at [''minutes''] 1 (player_group season 3)) [0 ..< length (player_group season 3) - 1]
        = [[[80]]]
   \<and> map (window_at [''minutes''] 1 (player_group season 7)) [0 ..< length (player_group season 7) - 1]
        = [[[90]], [[45]], [[0]], [[90]], [[90]]]
   \<and> (\<exists>targets. create_sequences (Some season) 1 [''minutes''] ''points'' =
         Inr (Arrays ([[[80]]] @ [[[90]], [[45]], [[0]], [[90]], [[90]]]) targets))"
proof -
  have c: "''player_id'' \<in> set (columns season)" "''gameweek'' \<in> set (columns season)"
    "set [''minutes''] \<subseteq> set (columns season)" "''points'' \<in> set (columns season)"
    by (simp_all add: season_def required_cols_def)
  have upt: "[0 ..< 5] = [0, 1, 2, 3, 4]" "[0 ..< 1] = [0]"
    by (simp_all add: upt_rec)
  have b3: "map (window_at [''minutes''] 1 (player_group season 3)) [0 ..< length (player_group season 3) - 1]
        = [[[80]]]"
    by (simp add: player_group_season_3 window_at_def gw_row_simps)
  have b7: "map (window_at [''minutes''] 1 (player_group season 7)) [0 ..< length (player_group season 7) - 1]
        = [[[90]], [[45]], [[0]], [[90]], [[90]]]"
    by (simp add: player_group_season_7 window_at_def gw_row_simps upt)
  from windows_grouped_by_player[OF c, of 1]
  have "\<exists>targets. create_sequences (Some season) 1 [''minutes''] ''points'' =
         Inr (Arrays ([[[80]]] @ [[[90]], [[45]], [[0]], [[90]], [[90]]]) targets)"
    by (simp del: One_nat_def add: players_season b3 b7)
  then show ?thesis
    using c b3 b7 players_season by blast
qed

section \<open>The latest window of every player\<close>

lemma predict_step_present:
  assumes "''player_id'' \<in> set (columns df)" and "set feature_cols \<subseteq> set (columns df)"
  shows "predict_step model df seq_length feature_cols predictions p =
           Inr (if seq_length \<le> length (filter (\<lambda>r. r ''player_id'' = p) (rows df))
                then predictions(p \<mapsto> model (map (\<lambda>r. map r feature_cols)
                       (iloc_last seq_length (filter (\<lambda>r. r ''player_id'' = p) (rows df)))))
                else predictions)"
proof -
  let ?g = "filter (\<lambda>r. r ''player_id'' = p) (rows df)"
  have sel: "select_eq ''player_id'' p df = Inr (df\<lparr>rows := ?g\<rparr>)"
    using assms(1) by (simp add: select_eq_def)
  have seq: "getcols (df\<lparr>rows := iloc_last seq_length ?g\<rparr>) feature_cols =
               Inr (map (\<lambda>r. map r feature_cols) (iloc_last seq_length ?g))"
    using assms(2) by (simp add: getcols_present)
  show ?thesis
    by (simp add: predict_step_def sel seq)
qed

lemma predict_loop:
  assumes "''player_id'' \<in> set (columns df)" and "set feature_cols \<subseteq> set (columns df)"
  shows "for_each (predict_step model df seq_length feature_cols) ps predictions =
           Inr (\<lambda>q. if q \<in> set ps \<and> seq_length \<le> length (filter (\<lambda>r. r ''player_id'' = q) (rows df))
                    then Some (model (map (\<lambda>r. map r feature_cols)
                           (iloc_last seq_length (filter (\<lambda>r. r ''player_id'' = q) (rows df)))))
                    else predictions q)"
proof (induction ps arbitrary: predictions)
  case Nil
  then show ?case by simp
next
  case (Cons p ps)
  let ?body = "predict_step model df seq_length feature_cols"
  let ?n = "\<lambda>q. length (filter (\<lambda>r. r ''player_id'' = q) (rows df))"
  let ?v = "\<lambda>q. model (map (\<lambda>r. map r feature_cols)
                   (iloc_last seq_length (filter (\<lambda>r. r ''player_id'' = q) (rows df))))"
  define m1 where "m1 = (if seq_length \<le> ?n p then predictions(p \<mapsto> ?v p) else predictions)"
  have step: "?body predictions p = Inr m1"
    unfolding m1_def by (rule predict_step_present[OF assms])
  have "for_each ?body (p # ps) predictions = for_each ?body ps m1"
    by (simp only: for_each.simps step sum.case)
  also have "\<dots> = Inr (\<lambda>q. if q \<in> set ps \<and> seq_length \<le> ?n q then Some (?v q) else m1 q)"
    by (rule Cons.IH)
  also have "(\<lambda>q. if q \<in> set ps \<and> seq_length \<le> ?n q then Some (?v q) else m1 q) =
             (\<lambda>q. if q \<in> set (p # ps) \<and> seq_length \<le> ?n q then Some (?v q) else predictions q)"
    by (rule ext) (simp add: m1_def)
  finally show ?case .
qed

lemma predict_next_gameweek_present:
  assumes "''player_id'' \<in> set (columns df)" and "''gameweek'' \<in> set (columns df)"
    and "set feature_cols \<subseteq> set (columns df)"
  shows "predict_next_gameweek model df seq_length feature_cols =
           Inr (\<lambda>q. if q \<in> set (players df) \<and> seq_length \<le> length (player_group df q)
                    then Some (model (map (\<lambda>r. map r feature_cols)
                                 (iloc_last seq_length (player_group df q))))
                    else None)"
proof -
  let ?sdf = "df\<lparr>rows := sorted_rows df\<rparr>"
  have sv: "sort_values [''player_id'', ''gameweek''] df = Inr ?sdf"
    using assms(1,2) by (simp add: sort_values_present sorted_rows_def)
  have ids: "getcol ?sdf ''player_id'' = Inr (map (\<lambda>r. r ''player_id'') (sorted_rows df))"
    using assms(1) by (simp add: getcol_def)
  have loop: "for_each (predict_step model ?sdf seq_length feature_cols) (players df) Map.empty =
      Inr (\<lambda>q. if q \<in> set (players df) \<and> seq_length \<le> length (player_group df q)
                    then Some (model (map (\<lambda>r. map r feature_cols)
                                 (iloc_last seq_length (player_group df q))))
                    else None)"
    using assms by (simp add: predict_loop player_group_def cong: if_cong)
  show ?thesis
    by (simp add: predict_next_gameweek_def sv ids loop players_def[symmetric])
qed

text \<open>
  Claim C3. On a frame with the columns the extractor reads, and a window length of at
  least 1, \<open>predict_next_gameweek\<close> returns a dictionary. A player of the frame has
  no entry if and only if the player has fewer than \<open>seq_length\<close> rows; otherwise the
  player's one entry is the model's value at the feature cells of the last
  \<open>seq_length\<close> rows of the player's group, which holds the player's rows in
  ascending order of the gameweek. A dictionary has at most one entry per key.
\<close>

theorem latest_window_prediction:
  assumes "''player_id'' \<in> set (columns df)" and "''gameweek'' \<in> set (columns df)"
    and "set feature_cols \<subseteq> set (columns df)" and "1 \<le> seq_length"
    and "p \<in> (\<lambda>r. r ''player_id'') ` set (rows df)"
  shows "\<exists>predictions.
           predict_next_gameweek model df seq_length feature_cols = Inr predictions
         \<and> (predictions p = None \<longleftrightarrow>
              length (filter (\<lambda>r. r ''player_id'' = p) (rows df)) < seq_length)
         \<and> (seq_length \<le> length (filter (\<lambda>r. r ''player_id'' = p) (rows df)) \<longrightarrow>
              predictions p =
                Some (model (map (\<lambda>r. map r feature_cols)
                               (drop (length (player_group df p) - seq_length) (player_group df p))))
              \<and> length (drop (length (player_group df p) - seq_length) (player_group df p)) = seq_length)
         \<and> sorted (map (\<lambda>r. r ''gameweek'') (player_group df p))
         \<and> mset (player_group df p) = mset (filter (\<lambda>r. r ''player_id'' = p) (rows df))"
proof -
  have mem: "p \<in> set (players df)"
    using assms(5) by (simp add: set_players)
  have last: "iloc_last seq_length (player_group df p) =
                drop (length (player_group df p) - seq_length) (player_group df p)"
    using assms(4) by (simp add: iloc_last_def)
  show ?thesis
    using mem sorted_player_group[of df p] mset_player_group[of df p]
    by (simp add: predict_next_gameweek_present[OF assms(1-3)] last length_player_group)
qed

text \<open>
  With windows of three rows, player 7 of \<open>season\<close> is predicted from the minutes of
  gameweeks 4, 5 and 6, and player 3, with two rows, has no entry. The model of the
  example returns its input.
\<close>

theorem latest_window_prediction_witness:
  "''player_id'' \<in> set (columns season) \<and> ''gameweek'' \<in> set (columns season)
   \<and> set [''minutes''] \<subseteq> set (columns season) \<and> (1::nat) \<le> 3
   \<and> 7 \<in> (\<lambda>r. r ''player_id'') ` set (rows season)
   \<and> 3 \<in> (\<lambda>r. r ''player_id'') ` set (rows season)
   \<and> (\<exists>predictions.
         predict_next_gameweek (\<lambda>w. w) season 3 [''minutes''] = Inr predictions
       \<and> predictions 7 = Some [[90], [90], [60]]
       \<and> predictions 3 = None)"
proof -
  have c: "''player_id'' \<in> set (columns season)" "''gameweek'' \<in> set (columns season)"
    "set [''minutes''] \<subseteq> set (columns season)"
    by (simp_all add: season_def required_cols_def)
  have l: "(1::nat) \<le> 3" by simp
  have m7: "7 \<in> (\<lambda>r. r ''player_id'') ` set (rows season)"
    and m3: "3 \<in> (\<lambda>r. r ''player_id'') ` set (rows season)"
    by (simp_all add: season_def gw_row_simps)
  have n7: "length (filter (\<lambda>r. r ''player_id'' = 7) (rows season)) = 6"
    and n3: "length (filter (\<lambda>r. r ''player_id'' = 3) (rows season)) = 2"
    by (simp_all add: season_def gw_row_simps)
  obtain P where run: "predict_next_gameweek (\<lambda>w. w) season 3 [''minutes''] = Inr P"
    and p7: "P 7 = Some (map (\<lambda>r. map r [''minutes''])
                     (drop (length (player_group season 7) - 3) (player_group season 7)))"
    using latest_window_prediction[OF c l m7, of "\<lambda>w. w"] n7 by auto
  obtain P' where run': "predict_next_gameweek (\<lambda>w. w) season 3 [''minutes''] = Inr P'"
    and p3: "P' 3 = None"
    using latest_window_prediction[OF c l m3, of "\<lambda>w. w"] n3 by auto
  from run run' have "P' = P" by simp
  with p3 have "P 3 = None" by simp
  moreover from p7 have "P 7 = Some [[90], [90], [60]]"
    by (simp add: player_group_season_7 gw_row_simps)
  ultimately show ?thesis
    using c l m7 m3 run by blast
qed

text \<open>
  The window length 0 is outside the lengths the pipeline uses: Python reads the slice
  \<open>iloc[-0:]\<close> as the whole frame, so the model is given every row of the player.
\<close>

lemma latest_window_zero_length:
  "\<exists>predictions. predict_next_gameweek (\<lambda>w. w) season 0 [''minutes''] = Inr predictions
     \<and> predictions 3 = Some [[80], [10]]"
  by (simp add: predict_next_gameweek_present season_def[THEN arg_cong[where f=columns], simplified]
      required_cols_def players_season player_group_season_3 iloc_last_def gw_row_simps)

section \<open>Missing columns and empty results\<close>







text \<open>
  When the frame has a gameweek column the builder never returns \<open>(None, None)\<close>.
\<close>

lemma create_sequences_not_none:
  "''gameweek'' \<in> set (columns df) \<Longrightarrow>
     create_sequences (Some df) seq_length feature_cols target_col \<noteq> Inr NoData"
  by (auto simp: create_sequences_def split: sum.splits prod.splits)

text \<open>
  \<open>process_data\<close> checks the six required columns before it normalises: when one is
  absent the builder is not called and \<open>X\<close> and \<open>y\<close> are \<open>None\<close>.
\<close>

lemma process_data_missing_column:
  "\<not> list_all (\<lambda>col. col \<in> set (columns (rename_known_columns df0))) required_cols \<Longrightarrow>
     process_data fit_transform (Some df0) =
       Inr \<lparr>player_gw_df = Some (rename_known_columns df0), X = None, y = None\<rparr>"
  by (simp add: process_data_def Let_def)

text \<open>
  Claim C4 at the failing input. In \<open>short_history\<close> the only player has three rows,
  so no window is cut with \<open>seq_length = 5\<close>; the same holds for a frame without rows.
  \<open>create_sequences\<close> returns the two empty arrays, not \<open>(None, None)\<close>. So
  \<open>process_data\<close> returns \<open>X\<close> and \<open>y\<close> that are not \<open>None\<close>, and the test
  of \<open>main\<close> that is meant to stop when no sequences were created does not fire. The
  scaler of the example leaves the matrix as it is.
\<close>

theorem no_sequences_not_reported:
  "create_sequences (Some short_history) 5 feature_cols_default ''points'' = Inr (Arrays [] [])
   \<and> create_sequences (Some \<lparr>columns = required_cols, rows = []\<rparr> :: int frame option) 5
        feature_cols_default ''points'' = Inr (Arrays [] [])
   \<and> map_sum id X (process_data Inr (Some short_history)) = Inr (Some [])
   \<and> map_sum id y (process_data Inr (Some short_history)) = Inr (Some [])
   \<and> map_sum id main_exits_early (process_data Inr (Some short_history)) = Inr False"
  by code_simp

section \<open>The gameweek column added at ingestion\<close>

lemma map_enumerate_fst:
  "map (\<lambda>(k, r). f k) (enumerate n xs) = map f [n ..< n + length xs]"
  by (induction xs arbitrary: n) (simp_all add: upt_rec)

lemma map_enumerate_snd:
  "map (\<lambda>(k, r). f r) (enumerate n xs) = map f xs"
  by (induction xs arbitrary: n) simp_all

text \<open>
  Without a column \<open>gameweek\<close> and without a column \<open>index\<close> in the file, the
  gameweek of the row at position \<open>k\<close> is \<open>k + 1\<close>, and every row has the player id.
\<close>

lemma synthesized_gameweek:
  assumes "''gameweek'' \<notin> set (columns df0)" and "''index'' \<notin> set (columns df0)"
  shows "\<exists>df. ingest_player_file player_id df0 = Inr df
           \<and> getcol df ''gameweek'' = Inr (map (\<lambda>k. of_nat k + 1) [0 ..< length (rows df0)])
           \<and> getcol df ''player_id'' = Inr (replicate (length (rows df0)) player_id)"
proof -
  let ?df = "set_scalar ''player_id'' player_id df0"
  have cols: "''gameweek'' \<notin> set (columns ?df)" "''index'' \<notin> set (columns ?df)"
    using assms by (simp_all add: set_scalar_def)
  have pid: "''player_id'' \<in> set (columns ?df)"
    by (simp add: set_scalar_def)
  let ?df1 = "\<lparr>columns = ''index'' # columns ?df,
               rows = map (\<lambda>(k, r). r(''index'' := of_nat k)) (enumerate 0 (rows ?df))\<rparr>"
  have ri: "reset_index ?df = Inr ?df1"
    using cols by (simp add: reset_index_def Let_def)
  let ?df2 = "rename_column ''index'' ''gameweek'' ?df1"
  have c2: "columns ?df2 = ''gameweek'' # columns ?df"
  proof -
    have "map (\<lambda>c. if c = ''index'' then ''gameweek'' else c) (columns ?df) = columns ?df"
      using cols(2) by (intro map_idI) auto
    then show ?thesis by (simp add: rename_column_def)
  qed
  have r2: "rows ?df2 = map (\<lambda>r c. if c = ''gameweek'' then r ''index'' else r c) (rows ?df1)"
    by (simp add: rename_column_def)
  let ?df3 = "?df2\<lparr>rows := map (\<lambda>r. r(''gameweek'' := r ''gameweek'' + 1)) (rows ?df2)\<rparr>"
  have run: "ingest_player_file player_id df0 = Inr ?df3"
    using cols(1) by (simp add: ingest_player_file_def Let_def ri add_to_column_def c2)
  have r3: "rows ?df3 =
      map (\<lambda>r. r(''gameweek'' := r ''gameweek'' + 1))
        (map (\<lambda>r c. if c = ''gameweek'' then r ''index'' else r c)
          (map (\<lambda>(k, r). r(''index'' := of_nat k)) (enumerate 0 (rows ?df))))"
    by (simp add: rename_column_def)
  have len: "length (rows ?df) = length (rows df0)"
    by (simp add: set_scalar_def)
  have "map (\<lambda>r. r ''gameweek'') (rows ?df3) =
          map (\<lambda>(k, r). of_nat k + 1) (enumerate 0 (rows ?df))"
    unfolding r3 by (simp add: comp_def case_prod_unfold)
  also have "\<dots> = map (\<lambda>k. of_nat k + 1) [0 ..< length (rows df0)]"
    using map_enumerate_fst[of "\<lambda>k. of_nat k + 1" 0 "rows ?df"] by (simp add: len)
  finally have gw: "getcol ?df3 ''gameweek'' = Inr (map (\<lambda>k. of_nat k + 1) [0 ..< length (rows df0)])"
    by (simp add: getcol_def c2)
  have "map (\<lambda>r. r ''player_id'') (rows ?df3) =
          map (\<lambda>(k, r). r ''player_id'') (enumerate 0 (rows ?df))"
    unfolding r3 by (simp add: comp_def case_prod_unfold)
  also have "\<dots> = map (\<lambda>r. r ''player_id'') (rows ?df)"
    by (rule map_enumerate_snd)
  also have "\<dots> = replicate (length (rows df0)) player_id"
    by (simp add: set_scalar_def comp_def map_replicate_const)
  finally have "getcol ?df3 ''player_id'' = Inr (replicate (length (rows df0)) player_id)"
    using pid by (simp add: getcol_def c2)
  with run gw show ?thesis by blast
qed

text \<open>
  Claim C9 at the failing input. \<open>indexed_file\<close> has no gameweek column, and a column
  \<open>index\<close> holding 10 and 20. \<open>reset_index\<close> then labels the positions
  \<open>level_0\<close>, the renaming turns the column \<open>index\<close> of the file into the gameweek,
  and the gameweeks are 11 and 21, not 1 and 2.
\<close>

theorem gameweek_taken_from_index_column:
  "''gameweek'' \<notin> set (columns indexed_file)
   \<and> getcol indexed_file ''index'' = Inr [10, 20]
   \<and> map_sum id columns (ingest_player_file 9 indexed_file) =
        Inr [''level_0'', ''gameweek'', ''minutes'', ''player_id'']
   \<and> (case ingest_player_file 9 indexed_file of
         Inl e \<Rightarrow> Inl e
       | Inr df \<Rightarrow> getcol df ''gameweek'') = Inr [11, 21]"
  by code_simp

text \<open>A file with the minutes only gets the gameweeks 1 and 2.\<close>

lemma synthesized_gameweek_example:
  "\<exists>df. ingest_player_file 9 plain_file = Inr df
         \<and> getcol df ''gameweek'' = Inr [1, 2] \<and> getcol df ''player_id'' = Inr [9, 9]"
  using synthesized_gameweek[of plain_file 9]
  by (simp add: plain_file_def upt_rec numeral_2_eq_2)

section \<open>Normalisation and the targets\<close>

lemma insort_key_map:
  "insort_key k (g z) (map g zs) = map g (insort_key (\<lambda>z. k (g z)) z zs)"
  by (induction zs) simp_all

lemma sort_key_map:
  "sort_key k (map g zs) = map g (sort_key (\<lambda>z. k (g z)) zs)"
  by (induction zs) (simp_all add: insort_key_map)

lemma targets_of_drop:
  "targets_of tc L grp = drop L (map (\<lambda>r. r tc) grp)"
  by (simp add: targets_of_def list_eq_iff_nth_eq add.commute)

lemma assign_fold_other:
  "c \<notin> fst ` set ps \<Longrightarrow> fold (\<lambda>(c, v) r'. r'(c := v)) ps r c = r c"
  by (induction ps arbitrary: r) (auto simp: case_prod_unfold)

lemma assign_cells_other:
  "c \<notin> set cols \<Longrightarrow> assign_cells cols m r c = r c"
  unfolding assign_cells_def
  by (rule assign_fold_other) (auto dest: set_zip_leftD)

text \<open>
  Two frames whose rows agree, row by row, on the player, the gameweek and the target
  column: the builder visits the same players and cuts the same targets.
\<close>

lemma targets_agree:
  fixes f g :: "'z \<Rightarrow> string \<Rightarrow> 'v::linorder"
  assumes "rows df' = map g zs" and "rows df = map f zs"
    and "\<And>z. g z ''player_id'' = f z ''player_id''"
    and "\<And>z. g z ''gameweek'' = f z ''gameweek''"
    and "\<And>z. g z tc = f z tc"
  shows "players df' = players df"
    and "targets_of tc L (player_group df' p) = targets_of tc L (player_group df p)"
proof -
  let ?k = "\<lambda>r::string \<Rightarrow> 'v. map r [''player_id'', ''gameweek'']"
  let ?zs = "sort_key (\<lambda>z. ?k (f z)) zs"
  have kg: "(\<lambda>z. ?k (g z)) = (\<lambda>z. ?k (f z))"
    by (rule ext) (simp add: assms(3,4))
  have s': "sorted_rows df' = map g ?zs"
    by (simp only: sorted_rows_def assms(1) sort_key_map kg)
  have s: "sorted_rows df = map f ?zs"
    by (simp only: sorted_rows_def assms(2) sort_key_map)
  show "players df' = players df"
    by (simp add: players_def s s' comp_def assms(3))
  have "player_group df' p = map g (filter (\<lambda>z. f z ''player_id'' = p) ?zs)"
    by (simp add: player_group_def s' filter_map comp_def assms(3))
  moreover have "player_group df p = map f (filter (\<lambda>z. f z ''player_id'' = p) ?zs)"
    by (simp add: player_group_def s filter_map comp_def)
  ultimately show "targets_of tc L (player_group df' p) = targets_of tc L (player_group df p)"
    by (simp add: targets_of_drop comp_def assms(5))
qed

lemma set_columns_existing:
  assumes "set cols \<subseteq> set (columns df)" and "set_columns cols M df = Inr df'"
  shows "columns df' = columns df"
    and "length M = length (rows df)"
    and "rows df' = map (\<lambda>(r, m). assign_cells cols m r) (zip (rows df) M)"
proof -
  from assms(2) have ok: "length M = length (rows df)"
    and df': "df' = \<lparr>columns = columns df @ filter (\<lambda>c. c \<notin> set (columns df)) (remdups cols),
                     rows = map (\<lambda>(r, m). assign_cells cols m r) (zip (rows df) M)\<rparr>"
    by (auto simp: set_columns_def split: if_splits)
  have "filter (\<lambda>c. c \<notin> set (columns df)) (remdups cols) = []"
    using assms(1) by (auto simp: filter_empty_conv)
  then show "columns df' = columns df" by (simp add: df')
  show "length M = length (rows df)" by (rule ok)
  show "rows df' = map (\<lambda>(r, m). assign_cells cols m r) (zip (rows df) M)" by (simp add: df')
qed

lemma set_columns_frame:
  assumes "set cols \<subseteq> set (columns df)" and "set_columns cols M df = Inr df'" and "c \<notin> set cols"
  shows "getcol df' c = getcol df c"
proof -
  note sc = set_columns_existing[OF assms(1,2)]
  have "map (\<lambda>r. r c) (rows df') = map (\<lambda>z. fst z c) (zip (rows df) M)"
    by (simp add: sc(3) comp_def case_prod_unfold assign_cells_other[OF assms(3)])
  also have "\<dots> = map (\<lambda>r. r c) (map fst (zip (rows df) M))"
    by (simp add: comp_def)
  also have "\<dots> = map (\<lambda>r. r c) (rows df)"
    by (simp add: sc(2))
  finally show ?thesis
    by (simp add: getcol_def sc(1))
qed

lemma set_columns_targets:
  fixes df :: "('v::linorder) frame"
  assumes "set cols \<subseteq> set (columns df)" and "set_columns cols M df = Inr df'"
    and "''player_id'' \<notin> set cols" and "''gameweek'' \<notin> set cols" and "tc \<notin> set cols"
  shows "players df' = players df"
    and "targets_of tc L (player_group df' p) = targets_of tc L (player_group df p)"
proof -
  note sc = set_columns_existing[OF assms(1,2)]
  have r: "rows df = map fst (zip (rows df) M)"
    by (simp add: sc(2))
  have a: "\<And>z. (case z of (r, m) \<Rightarrow> assign_cells cols m r) ''player_id'' = fst z ''player_id''"
    and b: "\<And>z. (case z of (r, m) \<Rightarrow> assign_cells cols m r) ''gameweek'' = fst z ''gameweek''"
    and c: "\<And>z. (case z of (r, m) \<Rightarrow> assign_cells cols m r) tc = fst z tc"
    using assms(3-5) by (simp_all add: case_prod_unfold assign_cells_other)
  show "players df' = players df"
    by (rule targets_agree(1)[OF sc(3) r a b c])
  show "targets_of tc L (player_group df' p) = targets_of tc L (player_group df p)"
    by (rule targets_agree(2)[OF sc(3) r a b c])
qed

lemma required_present:
  assumes "list_all (\<lambda>col. col \<in> set (columns df)) required_cols"
  shows "''player_id'' \<in> set (columns df)" and "''gameweek'' \<in> set (columns df)"
    and "set feature_cols_default \<subseteq> set (columns df)" and "''points'' \<in> set (columns df)"
  using assms by (simp_all add: required_cols_def feature_cols_default_def)

text \<open>
  Claim C10. Whatever the scaler returns, when \<open>process_data\<close> ends without raising,
  the frame of the result has the columns of the frame before normalisation, every
  column other than \<open>minutes\<close>, \<open>goals\<close> and \<open>assists\<close> is unchanged, and the
  targets, when there are some, are those which the builder cuts from the frame before
  normalisation: the original points of the rows that follow the windows.
\<close>

theorem normalization_keeps_targets:
  fixes df0 :: "('v::linorder) frame"
  assumes "process_data fit_transform (Some df0) = Inr out"
  shows "\<exists>df'. player_gw_df out = Some df'
           \<and> columns df' = columns (rename_known_columns df0)
           \<and> (\<forall>c. c \<notin> set feature_cols_default \<longrightarrow>
                  getcol df' c = getcol (rename_known_columns df0) c)
           \<and> (\<forall>targets. y out = Some targets \<longrightarrow>
                  (\<exists>sequences.
                     create_sequences (Some (rename_known_columns df0)) 5 feature_cols_default
                       ''points'' = Inr (Arrays sequences targets))
                  \<and> targets =
                      concat (map (\<lambda>p. targets_of ''points'' 5
                                          (player_group (rename_known_columns df0) p))
                                  (players (rename_known_columns df0))))"
proof -
  let ?df = "rename_known_columns df0"
  show ?thesis
  proof (cases "list_all (\<lambda>col. col \<in> set (columns ?df)) required_cols")
    case False
    with assms have "out = \<lparr>player_gw_df = Some ?df, X = None, y = None\<rparr>"
      by (simp add: process_data_def Let_def)
    then show ?thesis by simp
  next
    case True
    note req = required_present[OF True]
    from assms True obtain M M' df' res where
      sc: "set_columns feature_cols_default M' ?df = Inr df'"
      and run': "create_sequences (Some df') 5 feature_cols_default ''points'' = Inr res"
      and out: "out = (case res of
                  NoData \<Rightarrow> \<lparr>player_gw_df = Some df', X = None, y = None\<rparr>
                | Arrays sequences targets \<Rightarrow>
                    \<lparr>player_gw_df = Some df', X = Some sequences, y = Some targets\<rparr>)"
      by (auto simp: process_data_def Let_def split: sum.splits seq_result.splits)
    note same = set_columns_existing(1)[OF req(3) sc]
    have pid: "''player_id'' \<notin> set feature_cols_default"
      and gw: "''gameweek'' \<notin> set feature_cols_default"
      and pts: "''points'' \<notin> set feature_cols_default"
      by (simp_all add: feature_cols_default_def)
    have pl: "players df' = players ?df"
      by (rule set_columns_targets(1)[OF req(3) sc pid gw pts])
    have tg: "\<And>p. targets_of ''points'' 5 (player_group df' p) =
                   targets_of ''points'' 5 (player_group ?df p)"
      by (rule set_columns_targets(2)[OF req(3) sc pid gw pts])
    let ?T = "concat (map (\<lambda>p. targets_of ''points'' 5 (player_group ?df p)) (players ?df))"
    have "create_sequences (Some df') 5 feature_cols_default ''points'' =
            Inr (Arrays (concat (map (\<lambda>p. windows_of feature_cols_default 5 (player_group df' p))
                                     (players df'))) ?T)"
      using create_sequences_blocks[of df' feature_cols_default "''points''" 5] req
      by (simp add: same pl tg)
    with run' have res: "res = Arrays (concat (map (\<lambda>p. windows_of feature_cols_default 5
                                 (player_group df' p)) (players df'))) ?T"
      by simp
    have orig: "\<exists>sequences. create_sequences (Some ?df) 5 feature_cols_default ''points'' =
                  Inr (Arrays sequences ?T)"
      using create_sequences_blocks[OF req(1,2,3,4), of 5] by blast
    have frame: "\<forall>c. c \<notin> set feature_cols_default \<longrightarrow> getcol df' c = getcol ?df c"
      using set_columns_frame[OF req(3) sc] by blast
    have "player_gw_df out = Some df'" and "y out = Some ?T"
      by (simp_all add: out res)
    with same frame orig show ?thesis by auto
  qed
qed

text \<open>
  On \<open>season\<close> with a scaler that rescales every cell \<open>v\<close> to \<open>2 v - 100\<close>: the
  features of the window change, the target is still 7.
\<close>

theorem normalization_keeps_targets_witness:
  "\<exists>out. process_data (\<lambda>M. Inr (map (map (\<lambda>v. 2 * v - 100)) M)) (Some season) = Inr out
     \<and> X out = Some [[[80, -98, -100], [-10, -100, -98], [-100, -100, -100], [80, -96, -100],
                       [80, -100, -100]]]
     \<and> y out = Some [7]
     \<and> (\<exists>sequences. create_sequences (Some (rename_known_columns season)) 5 feature_cols_default
            ''points'' = Inr (Arrays sequences [7]))"
proof -
  let ?sc = "\<lambda>M :: int list list. Inr (map (map (\<lambda>v. 2 * v - 100)) M) :: error + int list list"
  have "case process_data ?sc (Some season) of
          Inl e \<Rightarrow> False
        | Inr out \<Rightarrow> X out = Some [[[80, -98, -100], [-10, -100, -98], [-100, -100, -100],
                                     [80, -96, -100], [80, -100, -100]]]
                     \<and> y out = Some [7]"
    by code_simp
  then obtain out where run: "process_data ?sc (Some season) = Inr out"
    and x: "X out = Some [[[80, -98, -100], [-10, -100, -98], [-100, -100, -100],
                          [80, -96, -100], [80, -100, -100]]]"
    and y: "y out = Some [7]"
    by (cases "process_data ?sc (Some season)") simp_all
  from normalization_keeps_targets[OF run] y
  have "\<exists>sequences. create_sequences (Some (rename_known_columns season)) 5 feature_cols_default
            ''points'' = Inr (Arrays sequences [7])"
    by blast
  with run x y show ?thesis by blast
qed

section \<open>The builder leaves the caller's frame alone\<close>

lemma heap_extends_refl: "heap_extends h h"
  by (simp add: heap_extends_def)

lemma heap_extends_trans: "heap_extends h1 h2 \<Longrightarrow> heap_extends h2 h3 \<Longrightarrow> heap_extends h1 h3"
  by (auto simp: heap_extends_def)

lemma heap_extends_frame: "heap_extends h h' \<Longrightarrow> a < next_ref h \<Longrightarrow> frames h' a = frames h a"
  by (simp add: heap_extends_def)

lemma heap_extends_ref: "heap_extends h h' \<Longrightarrow> a < next_ref h \<Longrightarrow> a < next_ref h'"
  by (simp add: heap_extends_def)

lemma alloc_extends:
  assumes "alloc f h = (b, h')"
  shows "heap_extends h h'" and "frames h' b = f" and "b < next_ref h'"
  using assms by (auto simp: alloc_def heap_extends_def)

lemma sort_values_obj_pure:
  assumes "sort_values_obj keys a h = (r, h')"
  shows "heap_extends h h'"
    and "(case r of Inl e \<Rightarrow> Inl e | Inr b \<Rightarrow> Inr (frames h' b)) = sort_values keys (frames h a)"
    and "\<And>b. r = Inr b \<Longrightarrow> b < next_ref h'"
proof -
  show "heap_extends h h'"
    using assms alloc_extends(1)
    by (fastforce simp: sort_values_obj_def heap_extends_refl split: sum.splits prod.splits)
  show "(case r of Inl e \<Rightarrow> Inl e | Inr b \<Rightarrow> Inr (frames h' b)) = sort_values keys (frames h a)"
    using assms alloc_extends(2)
    by (fastforce simp: sort_values_obj_def split: sum.splits prod.splits)
  show "\<And>b. r = Inr b \<Longrightarrow> b < next_ref h'"
    using assms alloc_extends(3)
    by (fastforce simp: sort_values_obj_def split: sum.splits prod.splits)
qed

lemma select_eq_obj_pure:
  assumes "select_eq_obj c v a h = (r, h')"
  shows "heap_extends h h'"
    and "(case r of Inl e \<Rightarrow> Inl e | Inr b \<Rightarrow> Inr (frames h' b)) = select_eq c v (frames h a)"
proof -
  show "heap_extends h h'"
    using assms alloc_extends(1)
    by (fastforce simp: select_eq_obj_def heap_extends_refl split: sum.splits prod.splits)
  show "(case r of Inl e \<Rightarrow> Inl e | Inr b \<Rightarrow> Inr (frames h' b)) = select_eq c v (frames h a)"
    using assms alloc_extends(2)
    by (fastforce simp: select_eq_obj_def split: sum.splits prod.splits)
qed

lemma player_step_obj_pure:
  "heap_extends h (snd (player_step_obj a L fc tc acc p h))
   \<and> fst (player_step_obj a L fc tc acc p h) = player_step (frames h a) L fc tc acc p"
proof -
  obtain r h' where sel: "select_eq_obj ''player_id'' p a h = (r, h')"
    by (cases "select_eq_obj ''player_id'' p a h")
  note pure = select_eq_obj_pure[OF sel]
  show ?thesis
  proof (cases r)
    case (Inl e)
    with pure(2) have "select_eq ''player_id'' p (frames h a) = Inl e" by simp
    with pure(1) sel Inl show ?thesis
      by (simp add: player_step_obj_def player_step_def)
  next
    case (Inr b)
    with pure(2) have "select_eq ''player_id'' p (frames h a) = Inr (frames h' b)" by simp
    with pure(1) sel Inr show ?thesis
      by (simp add: player_step_obj_def player_step_def)
  qed
qed

lemma players_loop_obj_pure:
  "a < next_ref h \<Longrightarrow>
   heap_extends h (snd (for_each_obj (player_step_obj a L fc tc) ps acc h))
   \<and> fst (for_each_obj (player_step_obj a L fc tc) ps acc h) =
       for_each (player_step (frames h a) L fc tc) ps acc"
proof (induction ps arbitrary: acc h)
  case Nil
  then show ?case by (simp add: heap_extends_refl)
next
  case (Cons p ps)
  obtain r h' where step: "player_step_obj a L fc tc acc p h = (r, h')"
    by (cases "player_step_obj a L fc tc acc p h")
  from player_step_obj_pure[of h a L fc tc acc p] step
  have ext: "heap_extends h h'" and r: "player_step (frames h a) L fc tc acc p = r"
    by simp_all
  show ?case
  proof (cases r)
    case (Inl e)
    with step ext r show ?thesis by simp
  next
    case (Inr acc')
    have a': "a < next_ref h'" and same: "frames h' a = frames h a"
      using ext Cons.prems by (simp_all add: heap_extends_ref heap_extends_frame)
    from Cons.IH[OF a', of acc'] ext same
    have "heap_extends h (snd (for_each_obj (player_step_obj a L fc tc) ps acc' h'))"
      and "fst (for_each_obj (player_step_obj a L fc tc) ps acc' h') =
             for_each (player_step (frames h a) L fc tc) ps acc'"
      by (auto intro: heap_extends_trans)
    with step Inr r show ?thesis by simp
  qed
qed

lemma create_sequences_obj_pure:
  "heap_extends h (snd (create_sequences_obj df_ref L fc tc h))
   \<and> fst (create_sequences_obj df_ref L fc tc h) =
       create_sequences (map_option (frames h) df_ref) L fc tc"
proof (cases df_ref)
  case None
  then show ?thesis
    by (simp add: create_sequences_obj_def create_sequences_def heap_extends_refl)
next
  case (Some a)
  show ?thesis
  proof (cases "''gameweek'' \<in> set (columns (frames h a))")
    case False
    with Some show ?thesis
      by (simp add: create_sequences_obj_def create_sequences_def heap_extends_refl)
  next
    case True
    obtain r h1 where sv: "sort_values_obj [''player_id'', ''gameweek''] a h = (r, h1)"
      by (cases "sort_values_obj [''player_id'', ''gameweek''] a h")
    note pure = sort_values_obj_pure[OF sv]
    show ?thesis
    proof (cases r)
      case (Inl e)
      with pure(2) have "sort_values [''player_id'', ''gameweek''] (frames h a) = Inl e" by simp
      with pure(1) sv Some True Inl show ?thesis
        by (simp add: create_sequences_obj_def create_sequences_def)
    next
      case (Inr b)
      with pure(2) have svp: "sort_values [''player_id'', ''gameweek''] (frames h a) = Inr (frames h1 b)"
        by simp
      from pure(3) Inr have b: "b < next_ref h1" by simp
      show ?thesis
      proof (cases "getcol (frames h1 b) ''player_id''")
        case (Inl e)
        with pure(1) sv Some True Inr svp show ?thesis
          by (simp add: create_sequences_obj_def create_sequences_def)
      next
        case ids: (Inr player_ids)
        obtain r2 h2 where loop:
          "for_each_obj (player_step_obj b L fc tc) (unique player_ids) ([], []) h1 = (r2, h2)"
          by (cases "for_each_obj (player_step_obj b L fc tc) (unique player_ids) ([], []) h1")
        from players_loop_obj_pure[OF b, of L fc tc "unique player_ids" "([], [])"] loop
        have ext2: "heap_extends h1 h2"
          and r2: "for_each (player_step (frames h1 b) L fc tc) (unique player_ids) ([], []) = r2"
          by simp_all
        have ext: "heap_extends h h2"
          using pure(1) ext2 by (rule heap_extends_trans)
        show ?thesis
          using Some True sv Inr svp ids loop r2 ext
          by (cases r2) (auto simp: create_sequences_obj_def create_sequences_def)
      qed
    qed
  qed
qed

text \<open>
  Claim C7. Called on a reference into any store, the builder returns what
  \<open>create_sequences\<close> computes from the frame at that reference, a function of its
  arguments alone. It leaves the frame at the reference, and every frame the store had
  before the call, unchanged: it only allocates new frames. Hence a second call on the
  store left by the first returns the same result.
\<close>

theorem create_sequences_is_pure:
  assumes "a < next_ref h"
  shows "fst (create_sequences_obj (Some a) L fc tc h) = create_sequences (Some (frames h a)) L fc tc
       \<and> frames (snd (create_sequences_obj (Some a) L fc tc h)) a = frames h a
       \<and> heap_extends h (snd (create_sequences_obj (Some a) L fc tc h))
       \<and> fst (create_sequences_obj (Some a) L fc tc (snd (create_sequences_obj (Some a) L fc tc h))) =
           fst (create_sequences_obj (Some a) L fc tc h)"
proof -
  let ?h' = "snd (create_sequences_obj (Some a) L fc tc h)"
  from create_sequences_obj_pure[of h "Some a" L fc tc]
  have ext: "heap_extends h ?h'"
    and res: "fst (create_sequences_obj (Some a) L fc tc h) = create_sequences (Some (frames h a)) L fc tc"
    by simp_all
  have same: "frames ?h' a = frames h a"
    using ext assms by (rule heap_extends_frame)
  from create_sequences_obj_pure[of ?h' "Some a" L fc tc]
  have "fst (create_sequences_obj (Some a) L fc tc ?h') = create_sequences (Some (frames ?h' a)) L fc tc"
    by simp
  with same res ext show ?thesis by simp
qed

text \<open>
  Two calls on the store that holds \<open>season\<close>: the same arrays twice, and
  \<open>season\<close> is still at its reference.
\<close>

theorem create_sequences_is_pure_witness:
  "(0::nat) < next_ref season_heap
   \<and> fst (create_sequences_obj (Some 0) 5 [''minutes''] ''points'' season_heap) =
        Inr (Arrays [[[90], [45], [0], [90], [90]]] [7])
   \<and> frames (snd (create_sequences_obj (Some 0) 5 [''minutes''] ''points'' season_heap)) 0 = season
   \<and> fst (create_sequences_obj (Some 0) 5 [''minutes''] ''points''
             (snd (create_sequences_obj (Some 0) 5 [''minutes''] ''points'' season_heap))) =
        Inr (Arrays [[[90], [45], [0], [90], [90]]] [7])"
proof -
  have a: "(0::nat) < next_ref season_heap"
    by (simp add: season_heap_def)
  have f: "frames season_heap 0 = season"
    by (simp add: season_heap_def)
  from create_sequences_is_pure[OF a, of 5 "[''minutes'']" "''points''"] a
  show ?thesis
    by (simp add: f season_run_5)
qed

end
